theory Spec2Isabelle
  imports Main "HOL-Library.Word" "HOL-Library.Signed_Division"
begin

text \<open>
  The timing and calibration state machine of the Bendulum library for Arduino
  (Bendulum.h, Bendulum.cpp, version 1.22): the object's fields, \<^verbatim>\<open>setRunMode\<close>, the part
  of \<^verbatim>\<open>beat\<close> that follows the sensing of the magnet, \<^verbatim>\<open>incrBeatDuration\<close> and the
  setters the properties below use, followed by the properties C1 to C10.
\<close>

section \<open>Machine integers of the Arduino (AVR) target\<close>

text \<open>
  Bendulum.cpp is written for the AVR Arduino boards (\<^verbatim>\<open>analogReference(EXTERNAL)\<close>,
  \<^verbatim>\<open>WProgram.h\<close>): \<^verbatim>\<open>byte\<close> has 8 bits, \<^verbatim>\<open>int\<close> has 16 bits, \<^verbatim>\<open>long\<close> and
  \<^verbatim>\<open>unsigned long\<close> have 32 bits. Values are words; \<open>+\<close>, \<open>-\<close> and \<open>*\<close> wrap around,
  which is what avr-gcc computes where C leaves signed overflow undefined. Signed
  comparison is \<open><s\<close>, and \<open>sint\<close> reads a word as two's complement.
\<close>

type_synonym byte = "8 word"
type_synonym c_int = "16 word"
type_synonym c_long = "32 word"
type_synonym c_ulong = "32 word"

text \<open>C's signed division truncates towards zero (\<open>sdiv\<close> on \<open>int\<close>); the caller checks
  the divisor.\<close>

definition c_div :: "'a::len word \<Rightarrow> 'a word \<Rightarrow> 'a word" where
  "c_div a b = word_of_int (sint a sdiv sint b)"

text \<open>The usual arithmetic conversion of an \<^verbatim>\<open>int\<close> operand to \<^verbatim>\<open>long\<close>: sign extension.\<close>

definition to_long :: "c_int \<Rightarrow> c_long" where
  "to_long i = scast i"

datatype error = DivByZero

section \<open>The Bendulum object (Bendulum.h)\<close>

definition SETTLING :: byte where "SETTLING = 0"
definition SCALING :: byte where "SCALING = 1"
definition CALIBRATING :: byte where "CALIBRATING = 2"
definition CALFINISH :: byte where "CALFINISH = 3"
definition RUNNING :: byte where "RUNNING = 4"

lemmas mode_defs = SETTLING_def SCALING_def CALIBRATING_def CALFINISH_def RUNNING_def

record bendulum =
  sensePin :: byte
  kickPin :: byte
  cycleCounter :: c_int
  tgtSettle :: c_int
  tgtScale :: c_int
  tgtSmoothing :: c_int
  curSmoothing :: c_int
  uspb :: c_long
  bias :: c_int
  peakScale :: c_int
  tick :: bool
  tickAvg :: c_long
  tockAvg :: c_long
  tickPeriod :: c_long
  tockPeriod :: c_long
  lastTime :: c_ulong
  timeBeforeLast :: c_ulong
  runMode :: byte

section \<open>Bendulum.cpp\<close>

subsection \<open>Constructor\<close>

text \<open>
  The constructor assigns every member except \<^verbatim>\<open>uspb\<close>. The library's objects are
  declared at file scope (\<^verbatim>\<open>Bendulum b;\<close> in the demonstration sketch), where C++
  zero-initialises the storage before the constructor runs, so \<^verbatim>\<open>uspb\<close> starts at 0.
\<close>

definition Bendulum :: "byte \<Rightarrow> byte \<Rightarrow> bendulum" where
  "Bendulum sPin kPin =
     \<lparr> sensePin = sPin, kickPin = kPin,
       cycleCounter = 1, tgtSettle = 32, tgtScale = 128, tgtSmoothing = 2048,
       curSmoothing = 1, uspb = 0, bias = 0, peakScale = 10, tick = True,
       tickAvg = 0, tockAvg = 0, tickPeriod = 0, tockPeriod = 0,
       lastTime = 0, timeBeforeLast = 0, runMode = SETTLING \<rparr>"

subsection \<open>setRunMode\<close>

text \<open>A \<^verbatim>\<open>switch\<close> with no default: a byte that is none of the five constants changes nothing.\<close>

definition setRunMode :: "byte \<Rightarrow> bendulum \<Rightarrow> bendulum" where
  "setRunMode mode s =
     (if mode = SETTLING then s\<lparr>runMode := SETTLING, cycleCounter := 1\<rparr>
      else if mode = SCALING then s\<lparr>runMode := SCALING, cycleCounter := 1, peakScale := 10\<rparr>
      else if mode = CALIBRATING then
        s\<lparr>runMode := CALIBRATING, tockAvg := 0, tickAvg := 0, curSmoothing := 1\<rparr>
      else if mode = CALFINISH then s\<lparr>runMode := CALFINISH\<rparr>
      else if mode = RUNNING then s\<lparr>runMode := RUNNING\<rparr>
      else s)"

subsection \<open>Simple getters and setters\<close>

definition getCycleCounter :: "bendulum \<Rightarrow> c_int" where
  "getCycleCounter s =
     (if runMode s = RUNNING then - 1
      else if runMode s = CALIBRATING then curSmoothing s
      else cycleCounter s)"

definition setTgtSmoothing :: "c_int \<Rightarrow> bendulum \<Rightarrow> bendulum" where
  "setTgtSmoothing interval s = s\<lparr>tgtSmoothing := interval\<rparr>"

definition setTgtSettle :: "c_int \<Rightarrow> bendulum \<Rightarrow> bendulum" where
  "setTgtSettle interval s = s\<lparr>tgtSettle := interval\<rparr>"

definition setBias :: "c_int \<Rightarrow> bendulum \<Rightarrow> bendulum" where
  "setBias factor s = s\<lparr>bias := factor\<rparr>"

definition incrBias :: "c_int \<Rightarrow> bendulum \<Rightarrow> bendulum \<times> c_int" where
  "incrBias factor s = (s\<lparr>bias := bias s + factor\<rparr>, bias s + factor)"

definition setPeakScale :: "c_int \<Rightarrow> bendulum \<Rightarrow> bendulum" where
  "setPeakScale scaleFactor s = s\<lparr>peakScale := scaleFactor\<rparr>"

definition getBeatDuration :: "bendulum \<Rightarrow> c_long" where
  "getBeatDuration s = uspb s"

definition setBeatDuration :: "c_long \<Rightarrow> bendulum \<Rightarrow> bendulum" where
  "setBeatDuration beatDur s = s\<lparr>tockAvg := beatDur, tickAvg := beatDur, uspb := beatDur\<rparr>"

subsection \<open>beat\<close>

text \<open>
  The clock correction that \<^verbatim>\<open>beat\<close> applies to a measured interval \<open>p\<close> (the statement
  \<^verbatim>\<open>p += ((bias * p) + 432000) / 864000;\<close>, which occurs in the SETTLING, SCALING and
  CALIBRATING cases): \<^verbatim>\<open>bias\<close> is converted to \<^verbatim>\<open>long\<close>, and product and sum are 32-bit.
\<close>

definition corrected :: "c_int \<Rightarrow> c_long \<Rightarrow> c_long" where
  "corrected b p = p + c_div (to_long b * p + 432000) 864000"

text \<open>
  \<^verbatim>\<open>beat\<close> first polls the sense pin until the magnet has passed and kicks the coil. That
  part is hardware input and output; its two results are parameters here: \<open>topTime\<close>, the
  value of \<^verbatim>\<open>micros()\<close> when the magnet passed, and \<open>pastCoil\<close>, the last (scaled) coil
  reading before the voltage began to fall. The rest of \<^verbatim>\<open>beat\<close> follows, one definition
  for each case of the \<^verbatim>\<open>switch\<close>.
\<close>

definition beat_settling :: "c_ulong \<Rightarrow> bendulum \<Rightarrow> bendulum" where
  "beat_settling topTime s =
     (let u = corrected (bias s) (topTime - lastTime s);
          u = (if 5000000 <s u then 0 else u);
          s = s\<lparr>uspb := u\<rparr>
      in if tick s then s\<lparr>tickPeriod := u\<rparr>
         else
           (let s = s\<lparr>tockPeriod := u, cycleCounter := cycleCounter s + 1\<rparr>
            in if tgtSettle s <s cycleCounter s then setRunMode SCALING s else s))"

definition beat_scaling :: "c_ulong \<Rightarrow> c_int \<Rightarrow> bendulum \<Rightarrow> bendulum" where
  "beat_scaling topTime pastCoil s =
     (let s = (if 1 <s pastCoil then s\<lparr>peakScale := peakScale s + 1\<rparr> else s);
          u = corrected (bias s) (topTime - lastTime s);
          u = (if 5000000 <s u then 0 else u);
          s = s\<lparr>uspb := u\<rparr>
      in if tick s then s\<lparr>tickPeriod := u\<rparr>
         else
           (let s = s\<lparr>tockPeriod := u, cycleCounter := cycleCounter s + 1\<rparr>
            in if tgtScale s <s cycleCounter s then setRunMode CALIBRATING s else s))"

text \<open>Both branches of the CALIBRATING case divide by \<^verbatim>\<open>curSmoothing\<close>; the check for a
  zero divisor stands before them.\<close>

definition beat_calibrating :: "c_ulong \<Rightarrow> bendulum \<Rightarrow> error + bendulum" where
  "beat_calibrating topTime s =
     (let s = (if tickAvg s = 0 \<and> \<not> tick s then s\<lparr>tick := True\<rparr> else s)
      in if curSmoothing s = 0 then Inl DivByZero
         else
           (let s =
              (if tick s then
                 (let p = corrected (bias s) (topTime - lastTime s)
                  in s\<lparr>tickPeriod := p,
                       tickAvg := tickAvg s + c_div (p - tickAvg s) (to_long (curSmoothing s))\<rparr>)
               else
                 (let p = corrected (bias s) (topTime - lastTime s);
                      s = s\<lparr>tockPeriod := p,
                            tockAvg := tockAvg s + c_div (p - tockAvg s) (to_long (curSmoothing s))\<rparr>;
                      s = s\<lparr>curSmoothing := curSmoothing s + 1\<rparr>
                  in if tgtSmoothing s <s curSmoothing s then setRunMode CALFINISH s else s))
            in Inr (if tockAvg s = 0 then s\<lparr>uspb := tickAvg s\<rparr>
                    else s\<lparr>uspb := c_div (tickAvg s + tockAvg s) 2\<rparr>)))"

definition beat_switch :: "c_ulong \<Rightarrow> c_int \<Rightarrow> bendulum \<Rightarrow> error + bendulum" where
  "beat_switch topTime pastCoil s =
     (if runMode s = SETTLING then Inr (beat_settling topTime s)
      else if runMode s = SCALING then Inr (beat_scaling topTime pastCoil s)
      else if runMode s = CALIBRATING then beat_calibrating topTime s
      else if runMode s = CALFINISH then Inr (setRunMode RUNNING s)
      else Inr s)"

text \<open>The result is the new object and the value returned.\<close>

definition beat :: "c_ulong \<Rightarrow> c_int \<Rightarrow> bendulum \<Rightarrow> error + bendulum \<times> c_long" where
  "beat topTime pastCoil s =
     (if lastTime s = 0 then Inr (s\<lparr>lastTime := topTime\<rparr>, 0)
      else
        (case beat_switch topTime pastCoil s of
           Inl e \<Rightarrow> Inl e
         | Inr s \<Rightarrow>
             Inr (s\<lparr>tick := \<not> tick s, timeBeforeLast := lastTime s, lastTime := topTime\<rparr>,
                  uspb s)))"

subsection \<open>incrBeatDuration\<close>

text \<open>
  The \<^verbatim>\<open>while\<close> loop of \<^verbatim>\<open>incrBeatDuration\<close> on its two variables, \<^verbatim>\<open>incr\<close> and \<^verbatim>\<open>uspb\<close>
  (the averages it assigns on the way are assigned again after the loop). The loop need
  not end, so the result is an option: \<open>None\<close> when it runs forever.
\<close>


partial_function (option) incr_loop :: "c_long \<Rightarrow> c_long \<Rightarrow> c_long \<Rightarrow> (c_long \<times> c_long) option"
where
  "incr_loop noOflow incr u =
     (if noOflow <s incr
      then incr_loop noOflow (incr - noOflow) (u + c_div (noOflow * u + 432000) 864000)
      else Some (incr, u))"

definition incrBeatDuration :: "c_long \<Rightarrow> bendulum \<Rightarrow> (error + bendulum \<times> c_long) option" where
  "incrBeatDuration incr s =
     (if uspb s = 0 then Some (Inl DivByZero)
      else
        (let noOflow = c_div 2000000000 (uspb s)
         in case incr_loop noOflow incr (uspb s) of
              None \<Rightarrow> None
            | Some (incr, u) \<Rightarrow>
                (let u = u + c_div (incr * u + 432000) 864000
                 in Some (Inr (s\<lparr>tockAvg := u, tickAvg := u, uspb := u\<rparr>, u)))))"


subsection \<open>Repeated beats\<close>

text \<open>
  A sketch calls \<^verbatim>\<open>beat\<close> once in every pass of \<^verbatim>\<open>loop()\<close>. \<open>beats\<close> runs the calls
  for a list of sensed inputs \<open>(topTime, pastCoil)\<close> and gives the object after the last.
\<close>

fun beats :: "(c_ulong \<times> c_int) list \<Rightarrow> bendulum \<Rightarrow> error + bendulum" where
  "beats [] s = Inr s"
| "beats ((topTime, pastCoil) # es) s =
     (case beat topTime pastCoil s of
        Inl e \<Rightarrow> Inl e
      | Inr (s', r) \<Rightarrow> beats es s')"

text \<open>The inputs of \<open>k\<close> beats at a constant interval \<open>d\<close>, the first at time \<open>t\<close>, with no
  peak above the ceiling.\<close>

fun regular_beats :: "c_ulong \<Rightarrow> c_ulong \<Rightarrow> nat \<Rightarrow> (c_ulong \<times> c_int) list" where
  "regular_beats t d 0 = []"
| "regular_beats t d (Suc k) = (t, 0) # regular_beats (t + d) d k"

section \<open>Basic facts\<close>

lemmas beat_defs = beat_def beat_switch_def beat_settling_def beat_scaling_def
  beat_calibrating_def setRunMode_def

lemmas arith_defs = corrected_def c_div_def to_long_def signed_divide_int_def
  word_sless_alt word_sle_eq

lemma sint_succ_int: "sint (c + 1) = sint c + 1" if "sint (c :: c_int) < 32767"
proof -
  have "- (2 ^ 15) \<le> sint c" using sint_ge [of c] by simp
  then show ?thesis using that
    by (simp add: sint_word_ariths signed_take_bit_int_eq_self)
qed

lemma beats_append:
  "beats (es @ fs) s = (case beats es s of Inl e \<Rightarrow> Inl e | Inr f \<Rightarrow> beats fs f)"
  by (induction es arbitrary: s) (auto split: sum.splits)

section \<open>Mode changes\<close>

text \<open>
  C4. For each of the five modes, \<open>setRunMode\<close> sets the mode and resets the state that
  mode owns: SETTLING the cycle counter (to 1); SCALING the cycle counter (to 1) and
  \<open>peakScale\<close> (to 10); CALIBRATING both averages (to 0) and the smoothing counter (to 1);
  CALFINISH and RUNNING nothing. Every other field keeps its value: the result is the
  old record with only these fields updated, and no call, whatever its argument, touches
  the bias, the beat duration, the tick flag, the timestamps, the targets, the last
  periods or the pins.
\<close>

theorem setRunMode_frame:
  "setRunMode SETTLING s = s\<lparr>runMode := SETTLING, cycleCounter := 1\<rparr>
   \<and> setRunMode SCALING s = s\<lparr>runMode := SCALING, cycleCounter := 1, peakScale := 10\<rparr>
   \<and> setRunMode CALIBRATING s =
       s\<lparr>runMode := CALIBRATING, tickAvg := 0, tockAvg := 0, curSmoothing := 1\<rparr>
   \<and> setRunMode CALFINISH s = s\<lparr>runMode := CALFINISH\<rparr>
   \<and> setRunMode RUNNING s = s\<lparr>runMode := RUNNING\<rparr>
   \<and> bias (setRunMode m s) = bias s \<and> uspb (setRunMode m s) = uspb s
   \<and> tick (setRunMode m s) = tick s
   \<and> lastTime (setRunMode m s) = lastTime s
   \<and> timeBeforeLast (setRunMode m s) = timeBeforeLast s
   \<and> tgtSettle (setRunMode m s) = tgtSettle s \<and> tgtScale (setRunMode m s) = tgtScale s
   \<and> tgtSmoothing (setRunMode m s) = tgtSmoothing s
   \<and> tickPeriod (setRunMode m s) = tickPeriod s \<and> tockPeriod (setRunMode m s) = tockPeriod s
   \<and> sensePin (setRunMode m s) = sensePin s \<and> kickPin (setRunMode m s) = kickPin s"
  by (simp add: setRunMode_def mode_defs)

section \<open>The first call\<close>

text \<open>
  C5. A call of \<open>beat\<close> with no earlier timestamp (\<open>lastTime = 0\<close>) returns 0 and records
  the captured timestamp as \<open>lastTime\<close>; nothing else changes: neither counter, nor the
  tick flag, nor an average.
\<close>

theorem beat_first_call:
  "lastTime s = 0 \<Longrightarrow>
     beat topTime pastCoil s = Inr (s\<lparr>lastTime := topTime\<rparr>, 0)"
  by (simp add: beat_def)

theorem beat_first_call_witness:
  "lastTime (Bendulum 16 12) = 0
   \<and> beat 1000 0 (Bendulum 16 12) = Inr ((Bendulum 16 12)\<lparr>lastTime := 1000\<rparr>, 0)"
  using beat_first_call [of "Bendulum 16 12" 1000 0] by (simp add: Bendulum_def)

section \<open>CALFINISH\<close>

text \<open>
  A new object forced into CALFINISH has no timestamp yet: its next \<open>beat\<close> is a first
  call, which returns before the \<^verbatim>\<open>switch\<close>, and the mode stays CALFINISH.
\<close>

theorem beat_calfinish_counterexample:
  "runMode (setRunMode CALFINISH (Bendulum 16 12)) = CALFINISH
   \<and> map_sum id (runMode \<circ> fst) (beat 1000 0 (setRunMode CALFINISH (Bendulum 16 12)))
       = Inr CALFINISH
   \<and> CALFINISH \<noteq> RUNNING"
  by (simp add: beat_def setRunMode_def Bendulum_def mode_defs)

text \<open>
  C7 (amended). In CALFINISH, once a timestamp has been recorded (\<open>lastTime \<noteq> 0\<close>), the
  next \<open>beat\<close> switches the mode to RUNNING, returns the unchanged beat duration, and
  otherwise only toggles the tick flag and shifts the timestamps.
\<close>

theorem beat_calfinish:
  "runMode s = CALFINISH \<Longrightarrow> lastTime s \<noteq> 0 \<Longrightarrow>
     beat topTime pastCoil s =
       Inr (s\<lparr>runMode := RUNNING, tick := \<not> tick s, timeBeforeLast := lastTime s,
              lastTime := topTime\<rparr>, uspb s)"
  by (simp add: beat_def beat_switch_def setRunMode_def mode_defs)

theorem beat_calfinish_witness:
  "runMode ((setRunMode CALFINISH (Bendulum 16 12))\<lparr>lastTime := 1000\<rparr>) = CALFINISH
   \<and> lastTime ((setRunMode CALFINISH (Bendulum 16 12))\<lparr>lastTime := 1000\<rparr>) \<noteq> 0
   \<and> map_sum id (runMode \<circ> fst)
        (beat 2000 0 ((setRunMode CALFINISH (Bendulum 16 12))\<lparr>lastTime := 1000\<rparr>))
       = Inr RUNNING"
  using beat_calfinish [of "(setRunMode CALFINISH (Bendulum 16 12))\<lparr>lastTime := 1000\<rparr>" 2000 0]
  by (simp add: setRunMode_def Bendulum_def mode_defs)

section \<open>The peak scale\<close>

text \<open>
  After \<^verbatim>\<open>setPeakScale(20)\<close> on a new object with one settling cycle, the object is in
  SETTLING with \<open>peakScale = 20\<close> before the beat that completes the cycle; that beat
  switches to SCALING through \<open>setRunMode\<close>, which resets \<open>peakScale\<close> to 10.
\<close>

theorem beat_peakScale_counterexample:
  "map_sum id runMode (beats [(1000, 0), (1001000, 0)]
       (setPeakScale 20 (setTgtSettle 1 (Bendulum 16 12)))) = Inr SETTLING
   \<and> map_sum id peakScale (beats [(1000, 0), (1001000, 0)]
       (setPeakScale 20 (setTgtSettle 1 (Bendulum 16 12)))) = Inr 20
   \<and> map_sum id peakScale (beats [(1000, 0), (1001000, 0), (2001000, 0)]
       (setPeakScale 20 (setTgtSettle 1 (Bendulum 16 12)))) = Inr 10"
  by (simp add: beat_defs mode_defs arith_defs Let_def setPeakScale_def setTgtSettle_def
      Bendulum_def)

text \<open>
  C8 (amended). A measured beat in SCALING adds one to \<open>peakScale\<close> when the peak reading
  is above 1 and leaves it unchanged otherwise; the SETTLING beat that completes the
  settling cycles resets it to 10; every other call of \<open>beat\<close> leaves it unchanged.
\<close>

theorem beat_peakScale:
  "beat topTime pastCoil s = Inr (s', r) \<Longrightarrow>
     peakScale s' =
       (if lastTime s \<noteq> 0 \<and> runMode s = SCALING \<and> 1 <s pastCoil then peakScale s + 1
        else if lastTime s \<noteq> 0 \<and> runMode s = SETTLING \<and> \<not> tick s
                \<and> tgtSettle s <s cycleCounter s + 1 then 10
        else peakScale s)"
  by (auto simp add: beat_defs mode_defs Let_def split: if_splits)

theorem beat_peakScale_witness:
  "beat 2000 5 ((setRunMode SCALING (Bendulum 16 12))\<lparr>lastTime := 1000\<rparr>)
     = Inr ((setRunMode SCALING (Bendulum 16 12))
              \<lparr>lastTime := 2000, timeBeforeLast := 1000, tick := False, uspb := 1000,
               tickPeriod := 1000, peakScale := 11\<rparr>, 1000)
   \<and> peakScale ((setRunMode SCALING (Bendulum 16 12))
              \<lparr>lastTime := 2000, timeBeforeLast := 1000, tick := False, uspb := 1000,
               tickPeriod := 1000, peakScale := 11\<rparr>) = 11"
proof -
  have b: "beat 2000 5 ((setRunMode SCALING (Bendulum 16 12))\<lparr>lastTime := 1000\<rparr>)
     = Inr ((setRunMode SCALING (Bendulum 16 12))
              \<lparr>lastTime := 2000, timeBeforeLast := 1000, tick := False, uspb := 1000,
               tickPeriod := 1000, peakScale := 11\<rparr>, 1000)"
    by (simp add: beat_defs mode_defs arith_defs Let_def Bendulum_def)
  from beat_peakScale [OF b] show ?thesis using b
    by (simp add: setRunMode_def mode_defs arith_defs Bendulum_def)
qed

section \<open>The length of SETTLING\<close>

text \<open>One measured beat in SETTLING.\<close>

lemma settling_step:
  assumes "runMode s = SETTLING" "lastTime s \<noteq> 0"
  shows "\<exists>s'. beat t p s = Inr (s', uspb s') \<and> lastTime s' = t \<and> tgtSettle s' = tgtSettle s
    \<and> tick s' = (\<not> tick s)
    \<and> (tick s \<longrightarrow> runMode s' = SETTLING \<and> cycleCounter s' = cycleCounter s)
    \<and> (\<not> tick s \<longrightarrow>
         (if tgtSettle s <s cycleCounter s + 1 then runMode s' = SCALING \<and> cycleCounter s' = 1
          else runMode s' = SETTLING \<and> cycleCounter s' = cycleCounter s + 1))"
  using assms by (auto simp add: beat_defs mode_defs Let_def)

text \<open>
  From a SETTLING object with \<open>k\<close> measured beats left until the cycle counter passes the
  target, the mode is SETTLING after fewer than \<open>k\<close> beats and SCALING after \<open>k\<close>.
\<close>

lemma settling_run:
  assumes "runMode s = SETTLING" "lastTime s \<noteq> 0"
    and "1 \<le> sint (cycleCounter s)" "sint (cycleCounter s) \<le> sint (tgtSettle s)"
    and "sint (tgtSettle s) < 32767"
    and "\<forall>e \<in> set es. fst e \<noteq> 0"
    and "k = 2 * nat (sint (tgtSettle s) - sint (cycleCounter s)) + (if tick s then 2 else 1)"
  shows "(length es < k \<longrightarrow> (\<exists>f. beats es s = Inr f \<and> runMode f = SETTLING))
       \<and> (length es = k \<longrightarrow> (\<exists>f. beats es s = Inr f \<and> runMode f = SCALING))"
  using assms
proof (induction es arbitrary: s k)
  case Nil
  then show ?case by simp
next
  case (Cons e es)
  obtain t p where e: "e = (t, p)" by (cases e)
  from Cons.prems have t: "t \<noteq> 0" by (simp add: e)
  from settling_step [OF Cons.prems(1,2), of t p] obtain s' where
    b: "beat t p s = Inr (s', uspb s')" and l: "lastTime s' = t"
    and g: "tgtSettle s' = tgtSettle s" and tk: "tick s' = (\<not> tick s)"
    and c1: "tick s \<Longrightarrow> runMode s' = SETTLING \<and> cycleCounter s' = cycleCounter s"
    and c2: "\<not> tick s \<Longrightarrow>
         (if tgtSettle s <s cycleCounter s + 1 then runMode s' = SCALING \<and> cycleCounter s' = 1
          else runMode s' = SETTLING \<and> cycleCounter s' = cycleCounter s + 1)"
    by blast
  have bs: "beats (e # es) s = beats es s'" by (simp add: e b)
  have suc: "sint (cycleCounter s + 1) = sint (cycleCounter s) + 1"
    using Cons.prems(4,5) by (intro sint_succ_int) simp
  show ?case
  proof (cases "tick s")
    case True
    have "(length es < k - 1 \<longrightarrow> (\<exists>f. beats es s' = Inr f \<and> runMode f = SETTLING))
       \<and> (length es = k - 1 \<longrightarrow> (\<exists>f. beats es s' = Inr f \<and> runMode f = SCALING))"
      using Cons.prems True c1 l t g tk
      by (intro Cons.IH) auto
    then show ?thesis using Cons.prems(7) True by (simp add: bs)
  next
    case False
    show ?thesis
    proof (cases "tgtSettle s <s cycleCounter s + 1")
      case last: True
      then have "sint (cycleCounter s) = sint (tgtSettle s)"
        using Cons.prems(4) suc by (simp add: word_sless_alt)
      then have k1: "k = 1" using Cons.prems(7) False by simp
      have "runMode s' = SCALING" using c2 False last by simp
      then show ?thesis using k1 bs by auto
    next
      case more: False
      then have lt: "sint (cycleCounter s) < sint (tgtSettle s)"
        using suc by (simp add: word_sless_alt)
      have s': "runMode s' = SETTLING" "cycleCounter s' = cycleCounter s + 1"
        using c2 False more by simp_all
      have "(length es < k - 1 \<longrightarrow> (\<exists>f. beats es s' = Inr f \<and> runMode f = SETTLING))
         \<and> (length es = k - 1 \<longrightarrow> (\<exists>f. beats es s' = Inr f \<and> runMode f = SCALING))"
        using Cons.prems False lt l t g tk s' suc
        by (intro Cons.IH) auto
      then show ?thesis using Cons.prems(7) False lt by (simp add: bs)
    qed
  qed
qed

text \<open>With the target at 32767, the largest \<^verbatim>\<open>int\<close>, the incremented counter never
  exceeds it, and the object stays in SETTLING.\<close>

lemma sint_le_int_max: "\<not> 32767 <s (x :: c_int)"
  using sint_lt [of x] by (simp add: word_sless_alt)

lemma settling_never_ends:
  assumes "runMode s = SETTLING" and "lastTime s \<noteq> 0" and "tgtSettle s = 32767"
    and "\<forall>e \<in> set es. fst e \<noteq> 0"
  shows "\<exists>f. beats es s = Inr f \<and> runMode f = SETTLING"
  using assms
proof (induction es arbitrary: s)
  case Nil
  then show ?case by simp
next
  case (Cons e es)
  obtain t p where e: "e = (t, p)" by (cases e)
  from settling_step [OF Cons.prems(1,2), of t p] obtain s' where
    b: "beat t p s = Inr (s', uspb s')" and s': "lastTime s' = t" "tgtSettle s' = tgtSettle s"
      "runMode s' = SETTLING"
    using Cons.prems(3) sint_le_int_max by (cases "tick s") auto
  have "\<exists>f. beats es s' = Inr f \<and> runMode f = SETTLING"
    using Cons.prems s' by (intro Cons.IH) (auto simp add: e)
  then show ?case by (simp add: e b)
qed

text \<open>With no settling cycle asked for, the object is still in SETTLING after the first
  measured beat, and leaves it only with the second.\<close>

theorem settling_length_counterexample:
  "tgtSettle (setTgtSettle 0 (Bendulum 16 12)) = 0
   \<and> map_sum id runMode (beats [(1000, 0)] (setTgtSettle 0 (Bendulum 16 12))) = Inr SETTLING
   \<and> map_sum id runMode (beats [(1000, 0), (1001000, 0)] (setTgtSettle 0 (Bendulum 16 12)))
       = Inr SETTLING
   \<and> map_sum id runMode (beats [(1000, 0), (1001000, 0), (2001000, 0)]
        (setTgtSettle 0 (Bendulum 16 12))) = Inr SCALING
   \<and> SETTLING \<noteq> SCALING"
  by (simp add: beat_defs mode_defs arith_defs Let_def setTgtSettle_def Bendulum_def)

text \<open>
  C6 (amended). Let \<open>N = tgtSettle\<close> with \<open>1 \<le> N \<le> 32766\<close>. From a SETTLING object as the
  constructor leaves it (cycle counter 1, awaiting a tick) whose first timestamp has been
  recorded, the mode is SETTLING after every run of fewer than \<open>2 * N\<close> measured beats, and
  SCALING after exactly \<open>2 * N\<close> measured beats, that is on completing the \<open>N\<close>-th tock.
  (A beat is measured when the timestamp before it is not 0.)
\<close>

theorem settling_length:
  assumes "runMode s = SETTLING" and "cycleCounter s = 1" and "tick s" and "lastTime s \<noteq> 0"
    and "1 \<le> sint (tgtSettle s)" and "sint (tgtSettle s) < 32767"
    and "\<forall>e \<in> set es. fst e \<noteq> 0"
  shows "(length es < 2 * nat (sint (tgtSettle s)) \<longrightarrow>
            (\<exists>f. beats es s = Inr f \<and> runMode f = SETTLING))
       \<and> (length es = 2 * nat (sint (tgtSettle s)) \<longrightarrow>
            (\<exists>f. beats es s = Inr f \<and> runMode f = SCALING))"
proof -
  have "2 * nat (sint (tgtSettle s)) =
      2 * nat (sint (tgtSettle s) - sint (cycleCounter s)) + (if tick s then 2 else 1)"
    using assms(2,3,5) by simp
  then show ?thesis
    using settling_run [OF assms(1) assms(4) _ _ assms(6) assms(7), of "2 * nat (sint (tgtSettle s))"]
      assms(2,5)
    by simp
qed


theorem settling_length_witness:
  "(\<exists>f. beats [(1001000, 0), (2001000, 0), (3001000, 0)]
         ((setTgtSettle 2 (Bendulum 16 12))\<lparr>lastTime := 1000\<rparr>) = Inr f
       \<and> runMode f = SETTLING)
   \<and> (\<exists>f. beats [(1001000, 0), (2001000, 0), (3001000, 0), (4001000, 0)]
         ((setTgtSettle 2 (Bendulum 16 12))\<lparr>lastTime := 1000\<rparr>) = Inr f
       \<and> runMode f = SCALING)"
  using settling_length [of "(setTgtSettle 2 (Bendulum 16 12))\<lparr>lastTime := 1000\<rparr>"
      "[(1001000, 0), (2001000, 0), (3001000, 0)]"]
    settling_length [of "(setTgtSettle 2 (Bendulum 16 12))\<lparr>lastTime := 1000\<rparr>"
      "[(1001000, 0), (2001000, 0), (3001000, 0), (4001000, 0)]"]
  by (simp add: setTgtSettle_def Bendulum_def mode_defs)


section \<open>The clock correction\<close>

text \<open>Reading the 32-bit computation in \<open>int\<close>.\<close>


lemma sdiv_pos_divisor:
  "(k::int) sdiv 864000 = (if 0 \<le> k then k div 864000 else - ((- k) div 864000))"
  by (simp add: signed_divide_int_def sgn_if)

lemma sint_to_long: "sint (to_long b) = sint b"
  unfolding to_long_def by (simp add: sint_up_scast is_up)

lemma sint_long_of_int:
  "- (2 ^ 31) \<le> k \<Longrightarrow> k < 2 ^ 31 \<Longrightarrow> sint (word_of_int k :: c_long) = k"
  by (simp add: sint_sbintrunc' signed_take_bit_int_eq_self)

lemma long_of_sint: "word_of_int (sint (w :: c_long)) = w"
  by simp

lemma mult_div_864000:
  "864000 * ((a::int) div 864000) = a - a mod 864000"
  by (simp add: minus_mod_eq_mult_div)

lemma sdiv_864000_bounds:
  "\<bar>864000 * ((k::int) sdiv 864000) - k\<bar> < 864000"
  "0 \<le> k \<Longrightarrow> 864000 * (k sdiv 864000) \<le> k"
  "k \<le> 0 \<Longrightarrow> k \<le> 864000 * (k sdiv 864000)"
proof -
  have m: "0 \<le> k mod 864000" "k mod 864000 < 864000"
    "0 \<le> (- k) mod 864000" "(- k) mod 864000 < 864000"
    by simp_all
  show "\<bar>864000 * (k sdiv 864000) - k\<bar> < 864000"
    using m by (simp add: sdiv_pos_divisor mult_div_864000)
  show "0 \<le> k \<Longrightarrow> 864000 * (k sdiv 864000) \<le> k"
    using m by (simp add: sdiv_pos_divisor mult_div_864000)
  show "k \<le> 0 \<Longrightarrow> k \<le> 864000 * (k sdiv 864000)"
    using m by (simp add: sdiv_pos_divisor mult_div_864000)
qed

lemma corrected_sint:
  assumes "0 \<le> sint r" and "sint r \<le> 5000000"
    and "- (2 ^ 31) \<le> sint b * sint r" and "sint b * sint r + 432000 < 2 ^ 31"
  shows "sint (corrected b r) = sint r + (sint b * sint r + 432000) sdiv 864000"
proof -
  let ?k = "sint b * sint r + 432000"
  have eq: "to_long b * r + 432000 = word_of_int ?k"
  proof -
    have "to_long b = word_of_int (sint b)" "r = word_of_int (sint r)"
      using sint_to_long [of b] long_of_sint [of "to_long b"] by simp_all
    then have "to_long b * r = word_of_int (sint b * sint r)"
      by (metis of_int_mult)
    then show ?thesis by simp
  qed
  have k: "sint (to_long b * r + 432000) = ?k"
    unfolding eq using assms(3,4) by (intro sint_long_of_int) simp_all
  have q: "- 2486 \<le> ?k sdiv 864000 \<and> ?k sdiv 864000 \<le> 2486"
  proof -
    have "- 2147483648 \<le> ?k" "?k < 2147483648" using assms(3,4) by simp_all
    then show ?thesis using sdiv_864000_bounds(1) [of ?k] by linarith
  qed
  have "corrected b r = word_of_int (sint r + ?k sdiv 864000)"
    unfolding corrected_def c_div_def k by simp
  then have "sint (corrected b r) = sint (word_of_int (sint r + ?k sdiv 864000) :: c_long)"
    by simp
  also have "\<dots> = sint r + ?k sdiv 864000"
    using q assms(1,2) by (intro sint_long_of_int) simp_all
  finally show ?thesis .
qed

lemma correction_near_linear:
  "\<bar>864000 * ((k + 432000) sdiv 864000) - k\<bar> < (1296000::int)"
  using sdiv_864000_bounds(1) [of "k + 432000"] by simp

lemma correction_round_half_up:
  "0 \<le> (k::int) \<Longrightarrow> \<bar>864000 * ((k + 432000) sdiv 864000) - k\<bar> \<le> 432000"
  using sdiv_864000_bounds(1,2) [of "k + 432000"] by simp


text \<open>A bias of at most 429 in absolute value keeps the product within 32 bits for every
  interval up to five seconds.\<close>

lemma small_bias_fits:
  fixes b r :: int
  assumes "0 \<le> r" and "r \<le> 5000000" and "\<bar>b\<bar> \<le> 429"
  shows "- (2 ^ 31) \<le> b * r \<and> b * r + 432000 < 2 ^ 31"
proof -
  have "\<bar>b * r\<bar> = \<bar>b\<bar> * r" using assms(1) by (simp add: abs_mult)
  also have "\<dots> \<le> 429 * 5000000" using assms by (intro mult_mono) simp_all
  finally have "\<bar>b * r\<bar> \<le> 2145000000" by simp
  then have "- 2145000000 \<le> b * r" "b * r \<le> 2145000000" by linarith+
  then show ?thesis by simp
qed

text \<open>
  The correction is not linear in the bias: at an interval of one second a bias of 2
  adds 2 and a bias of 4 adds 5. With a bias of 4320 (a clock that is 0.5 per cent off)
  the product \<open>4320 * 1000000\<close> does not fit 32 bits; the beat duration measured is
  1000029, where \<open>r + (b * r + 432000) / 864000\<close> is 1005000.
\<close>

theorem corrected_interval_counterexample:
  "map_sum id uspb (beats [(1000, 0), (1001000, 0)] (setBias 2 (Bendulum 16 12)))
     = Inr 1000002
   \<and> map_sum id uspb (beats [(1000, 0), (1001000, 0)] (setBias 4 (Bendulum 16 12)))
     = Inr 1000005
   \<and> map_sum id uspb (beats [(1000, 0), (1001000, 0)] (setBias 4320 (Bendulum 16 12)))
     = Inr 1000029
   \<and> (1000000 + (4320 * 1000000 + 432000) sdiv 864000 :: int) = 1005000"
  by (simp add: beat_defs setBias_def Bendulum_def mode_defs arith_defs Let_def)

text \<open>
  C1 (amended). For a bias \<open>b\<close> and a raw interval \<open>0 \<le> r \<le> 5000000\<close> whose product
  \<open>b * r\<close> fits the signed 32-bit \<^verbatim>\<open>long\<close>, also with 432000 added (every \<open>r\<close> when
  \<open>\<bar>b\<bar> \<le> 429\<close>), the corrected interval is \<open>r + (b * r + 432000) / 864000\<close> with C's
  division, which truncates towards zero; for \<open>b \<ge> 0\<close> this is rounding to nearest
  (half up). The correction is linear in \<open>b\<close> only up to rounding: 864000 times the
  correction differs from \<open>b * r\<close> by less than 1296000, and by at most 432000 when
  \<open>b \<ge> 0\<close>. A measured beat in SETTLING or SCALING returns the corrected interval when it
  is not above 5000000.
\<close>

theorem corrected_interval:
  assumes "0 \<le> sint r" and "sint r \<le> 5000000"
    and "- (2 ^ 31) \<le> sint b * sint r" and "sint b * sint r + 432000 < 2 ^ 31"
  shows "sint (corrected b r) = sint r + (sint b * sint r + 432000) sdiv 864000
    \<and> \<bar>864000 * (sint (corrected b r) - sint r) - sint b * sint r\<bar> < 1296000
    \<and> (0 \<le> sint b \<longrightarrow>
          sint (corrected b r) = sint r + (sint b * sint r + 432000) div 864000
        \<and> \<bar>864000 * (sint (corrected b r) - sint r) - sint b * sint r\<bar> \<le> 432000)
    \<and> ((runMode s = SETTLING \<or> runMode s = SCALING) \<and> lastTime s \<noteq> 0 \<and> bias s = b
          \<and> topTime - lastTime s = r \<and> sint (corrected b r) \<le> 5000000 \<longrightarrow>
        (\<exists>s'. beat topTime pastCoil s = Inr (s', corrected b r)))"
proof -
  let ?k = "sint b * sint r"
  have c: "sint (corrected b r) = sint r + (?k + 432000) sdiv 864000"
    using assms by (rule corrected_sint)
  have near: "\<bar>864000 * (sint (corrected b r) - sint r) - ?k\<bar> < 1296000"
    using correction_near_linear [of ?k] by (simp add: c)
  have pos: "sint (corrected b r) = sint r + (?k + 432000) div 864000
      \<and> \<bar>864000 * (sint (corrected b r) - sint r) - ?k\<bar> \<le> 432000" if "0 \<le> sint b"
  proof -
    have k: "0 \<le> ?k" using that assms(1) by simp
    then show ?thesis using correction_round_half_up [OF k]
      by (simp add: c sdiv_pos_divisor)
  qed
  have b: "\<exists>s'. beat topTime pastCoil s = Inr (s', corrected b r)"
    if "runMode s = SETTLING \<or> runMode s = SCALING" "lastTime s \<noteq> 0" "bias s = b"
      "topTime - lastTime s = r" "sint (corrected b r) \<le> 5000000"
    using that by (auto simp add: beat_defs mode_defs Let_def word_sless_alt)
  show ?thesis using c near pos b by blast
qed

theorem corrected_interval_witness:
  "sint (corrected 10 1000000) = 1000012
   \<and> (\<exists>s'. beat 1001000 0 ((setBias 10 (Bendulum 16 12))\<lparr>lastTime := 1000\<rparr>)
         = Inr (s', 1000012))"
  using corrected_interval [of 1000000 10 "(setBias 10 (Bendulum 16 12))\<lparr>lastTime := 1000\<rparr>"
      1001000 0]
  by (simp add: setBias_def Bendulum_def mode_defs arith_defs)

section \<open>Intervals of more than five seconds\<close>

text \<open>
  With the beat duration set to 1000000 and timestamps 6 seconds apart, the SETTLING beat
  leaves the beat duration at 0, not at 1000000; the same interval measured in
  CALIBRATING is taken into the average and returned as the beat duration 6000000.
\<close>

theorem beat_discard_counterexample:
  "map_sum id uspb (beats [(1000, 0)] (setBeatDuration 1000000 (Bendulum 16 12)))
     = Inr 1000000
   \<and> map_sum id uspb (beats [(1000, 0), (6001000, 0)]
        (setBeatDuration 1000000 (Bendulum 16 12))) = Inr 0
   \<and> map_sum id uspb (beats [(1000, 0), (6001000, 0)]
        (setRunMode CALIBRATING (setBeatDuration 1000000 (Bendulum 16 12)))) = Inr 6000000"
  by (simp add: beat_defs setBeatDuration_def Bendulum_def mode_defs arith_defs Let_def)

text \<open>The corrected interval read in \<open>int\<close>, for any interval whose correction fits 32 bits.\<close>

lemma corrected_sint_wide:
  assumes "- (2 ^ 31) \<le> sint b * sint r" and "sint b * sint r + 432000 < 2 ^ 31"
    and "- (2 ^ 31) \<le> sint r + (sint b * sint r + 432000) sdiv 864000"
    and "sint r + (sint b * sint r + 432000) sdiv 864000 < 2 ^ 31"
  shows "sint (corrected b r) = sint r + (sint b * sint r + 432000) sdiv 864000"
proof -
  let ?k = "sint b * sint r + 432000"
  have eq: "to_long b * r + 432000 = word_of_int ?k"
  proof -
    have "to_long b = word_of_int (sint b)" "r = word_of_int (sint r)"
      using sint_to_long [of b] long_of_sint [of "to_long b"] by simp_all
    then have "to_long b * r = word_of_int (sint b * sint r)"
      by (metis of_int_mult)
    then show ?thesis by simp
  qed
  have k: "sint (to_long b * r + 432000) = ?k"
    unfolding eq using assms(1,2) by (intro sint_long_of_int) simp_all
  have "corrected b r = word_of_int (sint r + ?k sdiv 864000)"
    unfolding corrected_def c_div_def k by simp
  then have "sint (corrected b r) = sint (word_of_int (sint r + ?k sdiv 864000) :: c_long)"
    by simp
  also have "\<dots> = sint r + ?k sdiv 864000"
    using assms(3,4) by (intro sint_long_of_int) simp_all
  finally show ?thesis .
qed

text \<open>What a measured beat in SETTLING or SCALING does to the beat duration.\<close>

lemma beat_measuring_result:
  assumes "lastTime s \<noteq> 0" and "runMode s = SETTLING \<or> runMode s = SCALING"
  shows "\<exists>s'. beat topTime pastCoil s = Inr (s', uspb s')
     \<and> uspb s' = (if 5000000 <s corrected (bias s) (topTime - lastTime s) then 0
                  else corrected (bias s) (topTime - lastTime s))
     \<and> (if tick s then tickPeriod s' = uspb s' else tockPeriod s' = uspb s')"
  using assms by (auto simp add: beat_defs mode_defs Let_def)

text \<open>
  C2 (amended). In SETTLING and in SCALING, a measured beat whose corrected interval, as
  the signed 32-bit \<^verbatim>\<open>long\<close> that the code computes and compares, is greater than 5000000
  sets the beat duration to 0, records 0 as the tick or tock period, and returns 0; every
  other measured beat in these modes makes the corrected interval the beat duration and
  returns it. The signed test holds whenever the product \<open>b * r\<close> of bias and raw interval
  fits 32 bits, also with 432000 added, and \<open>r + (b * r + 432000) / 864000\<close> is above
  5000000 and below \<open>2 ^ 31\<close>.
\<close>

theorem beat_discard:
  assumes "lastTime s \<noteq> 0" and "runMode s = SETTLING \<or> runMode s = SCALING"
    and "r = topTime - lastTime s" and "b = bias s"
  shows "(5000000 <s corrected b r \<longrightarrow>
           (\<exists>s'. beat topTime pastCoil s = Inr (s', 0) \<and> uspb s' = 0
              \<and> (if tick s then tickPeriod s' = 0 else tockPeriod s' = 0)))
       \<and> (\<not> 5000000 <s corrected b r \<longrightarrow>
           (\<exists>s'. beat topTime pastCoil s = Inr (s', corrected b r)
              \<and> uspb s' = corrected b r))
       \<and> (- (2 ^ 31) \<le> sint b * sint r \<and> sint b * sint r + 432000 < 2 ^ 31
            \<and> 5000000 < sint r + (sint b * sint r + 432000) sdiv 864000
            \<and> sint r + (sint b * sint r + 432000) sdiv 864000 < 2 ^ 31 \<longrightarrow>
           5000000 <s corrected b r)"
proof -
  from beat_measuring_result [OF assms(1,2), of topTime pastCoil] obtain s' where
    s': "beat topTime pastCoil s = Inr (s', uspb s')"
      "uspb s' = (if 5000000 <s corrected b r then 0 else corrected b r)"
      "if tick s then tickPeriod s' = uspb s' else tockPeriod s' = uspb s'"
    unfolding assms(3,4) by blast
  have d: "\<exists>s'. beat topTime pastCoil s = Inr (s', 0) \<and> uspb s' = 0
              \<and> (if tick s then tickPeriod s' = 0 else tockPeriod s' = 0)"
    if "5000000 <s corrected b r"
    using s' that by (cases "tick s") auto
  have k: "\<exists>s'. beat topTime pastCoil s = Inr (s', corrected b r) \<and> uspb s' = corrected b r"
    if "\<not> 5000000 <s corrected b r"
    using s' that by auto
  have t: "5000000 <s corrected b r"
    if "- (2 ^ 31) \<le> sint b * sint r" "sint b * sint r + 432000 < 2 ^ 31"
      "5000000 < sint r + (sint b * sint r + 432000) sdiv 864000"
      "sint r + (sint b * sint r + 432000) sdiv 864000 < 2 ^ 31"
  proof -
    have "sint (corrected b r) = sint r + (sint b * sint r + 432000) sdiv 864000"
      using that by (intro corrected_sint_wide) simp_all
    then show ?thesis using that(3) by (simp add: word_sless_alt)
  qed
  show ?thesis using d k t by blast
qed

theorem beat_discard_witness:
  "(\<exists>s'. beat 6001500 0
        ((setBias 10 (setRunMode SCALING (Bendulum 16 12)))
           \<lparr>lastTime := 1000, uspb := 1000000, tick := False\<rparr>) = Inr (s', 0)
      \<and> uspb s' = 0 \<and> tockPeriod s' = 0)
   \<and> (\<exists>s'. beat 1001000 0
        ((setBias 10 (setRunMode SCALING (Bendulum 16 12)))
           \<lparr>lastTime := 1000, uspb := 1000000, tick := False\<rparr>) = Inr (s', 1000012)
      \<and> uspb s' = 1000012)"
  using beat_discard [of "(setBias 10 (setRunMode SCALING (Bendulum 16 12)))
           \<lparr>lastTime := 1000, uspb := 1000000, tick := False\<rparr>" 6000500 6001500 10 0]
    beat_discard [of "(setBias 10 (setRunMode SCALING (Bendulum 16 12)))
           \<lparr>lastTime := 1000, uspb := 1000000, tick := False\<rparr>" 1000000 1001000 10 0]
  by (simp add: setBias_def setRunMode_def Bendulum_def mode_defs arith_defs)

text \<open>An interval of \<open>2 ^ 31\<close> microseconds or more is negative as a \<^verbatim>\<open>long\<close>: it passes the
  test and becomes the beat duration.\<close>

lemma beat_wrapped_interval_kept:
  "map_sum id uspb (beats [(1000, 0), (3000001000, 0)] (Bendulum 16 12))
     = Inr (- 1294967296)"
  by (simp add: beat_defs Bendulum_def mode_defs arith_defs Let_def)

section \<open>CALIBRATING\<close>

text \<open>The update \<open>avg += (sample - avg) / n\<close> read in \<open>int\<close>: for a non-negative average and
  sample and a counter of at least 1, nothing wraps around.\<close>

lemma sdiv_towards_zero:
  assumes "1 \<le> (n::int)"
  shows "0 \<le> d \<Longrightarrow> 0 \<le> d sdiv n \<and> d sdiv n \<le> d"
    and "d \<le> 0 \<Longrightarrow> d \<le> d sdiv n \<and> d sdiv n \<le> 0"
proof -
  have q: "0 \<le> \<bar>d\<bar> div n" "\<bar>d\<bar> div n \<le> \<bar>d\<bar>"
    using assms zdiv_mono2 [of "\<bar>d\<bar>" 1 n] by (simp_all add: pos_imp_zdiv_nonneg_iff)
  show "0 \<le> d \<Longrightarrow> 0 \<le> d sdiv n \<and> d sdiv n \<le> d"
    using q assms by (simp add: signed_divide_int_def sgn_if)
  show "d \<le> 0 \<Longrightarrow> d \<le> d sdiv n \<and> d sdiv n \<le> 0"
    using q assms by (simp add: signed_divide_int_def sgn_if)
qed

lemma running_average_sint:
  fixes avg sample n :: c_long
  assumes "0 \<le> sint avg" and "0 \<le> sint sample" and "1 \<le> sint n"
  shows "sint (avg + c_div (sample - avg) n) = sint avg + (sint sample - sint avg) sdiv sint n"
proof -
  let ?d = "sint sample - sint avg"
  have r: "sint avg < 2 ^ 31" "sint sample < 2 ^ 31"
    using sint_lt [of avg] sint_lt [of sample] by simp_all
  have "sample - avg = word_of_int ?d" by simp
  then have d: "sint (sample - avg) = ?d"
    using sint_long_of_int [of ?d] assms(1,2) r by simp
  have q: "(0 \<le> ?d \<longrightarrow> 0 \<le> ?d sdiv sint n \<and> ?d sdiv sint n \<le> ?d)
       \<and> (?d \<le> 0 \<longrightarrow> ?d \<le> ?d sdiv sint n \<and> ?d sdiv sint n \<le> 0)"
    using sdiv_towards_zero [OF assms(3), of ?d] by blast
  have "avg + c_div (sample - avg) n = word_of_int (sint avg + ?d sdiv sint n)"
    by (simp add: c_div_def d)
  then have "sint (avg + c_div (sample - avg) n)
      = sint (word_of_int (sint avg + ?d sdiv sint n) :: c_long)"
    by simp
  also have "\<dots> = sint avg + ?d sdiv sint n"
  proof (rule sint_long_of_int)
    have lo: "0 \<le> sint avg + ?d sdiv sint n" using q assms(1,2) by linarith
    have hi: "sint avg + ?d sdiv sint n \<le> sint avg \<or> sint avg + ?d sdiv sint n \<le> sint sample"
      using q by linarith
    show "- (2 ^ 31) \<le> sint avg + ?d sdiv sint n" using lo by simp
    show "sint avg + ?d sdiv sint n < 2 ^ 31" using hi r by auto
  qed
  finally show ?thesis .
qed

text \<open>
  While the target is below 32767, the counter of a calibration stays between 1 and the
  target (or at 1, for a target below 1), so that no beat divides by zero.
\<close>

lemma beat_keeps_counter:
  assumes "sint (tgtSmoothing s) < 32767"
    and "runMode s = CALIBRATING \<longrightarrow>
          1 \<le> sint (curSmoothing s) \<and> sint (curSmoothing s) \<le> max 1 (sint (tgtSmoothing s))"
  shows "\<exists>s' r. beat t p s = Inr (s', r) \<and> tgtSmoothing s' = tgtSmoothing s
    \<and> (runMode s' = CALIBRATING \<longrightarrow>
          1 \<le> sint (curSmoothing s') \<and> sint (curSmoothing s') \<le> max 1 (sint (tgtSmoothing s')))"
proof (cases "lastTime s = 0")
  case True
  then show ?thesis using assms by (simp add: beat_def)
next
  case lt: False
  consider "runMode s = SETTLING" | "runMode s = SCALING" | "runMode s = CALIBRATING"
    | "runMode s = CALFINISH"
    | "runMode s \<noteq> SETTLING" "runMode s \<noteq> SCALING" "runMode s \<noteq> CALIBRATING"
      "runMode s \<noteq> CALFINISH"
    by blast
  then show ?thesis
  proof cases
    case 1
    then show ?thesis using lt
      by (simp add: beat_def beat_switch_def beat_settling_def setRunMode_def mode_defs Let_def)
  next
    case 2
    then show ?thesis using lt
      by (simp add: beat_def beat_switch_def beat_scaling_def setRunMode_def mode_defs Let_def)
  next
    case 3
    then have c: "1 \<le> sint (curSmoothing s)"
      "sint (curSmoothing s) \<le> max 1 (sint (tgtSmoothing s))"
      using assms(2) by simp_all
    then have nz: "curSmoothing s \<noteq> 0" by auto
    have suc: "sint (curSmoothing s + 1) = sint (curSmoothing s) + 1"
      using c assms(1) by (intro sint_succ_int) simp
    show ?thesis
    proof (cases "tick s \<or> tickAvg s = 0")
      case True
      then show ?thesis using 3 lt nz c
        by (simp add: beat_defs mode_defs Let_def) (cases "tick s"; simp)
    next
      case False
      then show ?thesis using 3 lt nz c suc
        by (auto simp add: beat_defs mode_defs Let_def word_sless_alt max_def)
    qed
  next
    case 4
    then show ?thesis using lt
      by (simp add: beat_def beat_switch_def setRunMode_def mode_defs)
  next
    case 5
    then show ?thesis using lt assms
      by (simp add: beat_def beat_switch_def)
  qed
qed

lemma beats_never_divide_by_zero:
  assumes "sint (tgtSmoothing s) < 32767"
    and "runMode s = CALIBRATING \<longrightarrow>
          1 \<le> sint (curSmoothing s) \<and> sint (curSmoothing s) \<le> max 1 (sint (tgtSmoothing s))"
  shows "\<exists>f. beats es s = Inr f"
  using assms
proof (induction es arbitrary: s)
  case Nil
  then show ?case by simp
next
  case (Cons e es)
  obtain t p where e: "e = (t, p)" by (cases e)
  from beat_keeps_counter [OF Cons.prems, of t p] obtain s' r where
    b: "beat t p s = Inr (s', r)" and k: "tgtSmoothing s' = tgtSmoothing s"
    "runMode s' = CALIBRATING \<longrightarrow>
          1 \<le> sint (curSmoothing s') \<and> sint (curSmoothing s') \<le> max 1 (sint (tgtSmoothing s'))"
    by blast
  have "\<exists>f. beats es s' = Inr f"
    using Cons.prems(1) k by (intro Cons.IH) simp_all
  then show ?case by (simp add: e b)
qed

lemma calibration_never_divides_by_zero:
  "sint (tgtSmoothing s) < 32767 \<Longrightarrow> \<exists>f. beats es (setRunMode CALIBRATING s) = Inr f"
  by (rule beats_never_divide_by_zero) (simp_all add: setRunMode_def mode_defs)

text \<open>
  With the target at 32767 the counter never exceeds it: it wraps around, and reaches 0.
  The run below is a new object with that target, put into CALIBRATING, and 131072 beats
  one second apart: the first call, one pair of beats that sets both averages to 1000000,
  65534 further pairs that take the counter from 2 to 0, and the beat that divides by it.
\<close>

lemma neg_of_nat_int_nonzero:
  "0 < m \<Longrightarrow> m < 65536 \<Longrightarrow> (- of_nat m :: c_int) \<noteq> 0"
  by (auto simp add: word_of_nat_eq_0_iff dest: dvd_imp_le)

lemma second_scale:
  "corrected 0 1000000 = 1000000" "c_div (0 :: c_long) n = 0" "c_div (2000000 :: c_long) 2 = 1000000"
  by (simp_all add: arith_defs)

lemma steady_pair:
  assumes "runMode s = CALIBRATING" and "tick s" and "bias s = 0"
    and "tickAvg s = 1000000" and "tockAvg s = 1000000" and "tgtSmoothing s = 32767"
    and "odd (lastTime s)" and "curSmoothing s \<noteq> 0"
  shows "beats [(lastTime s + 1000000, 0), (lastTime s + 1000000 + 1000000, 0)] s
    = Inr (s\<lparr>tickPeriod := 1000000, tockPeriod := 1000000, uspb := 1000000,
             curSmoothing := curSmoothing s + 1,
             timeBeforeLast := lastTime s + 1000000,
             lastTime := lastTime s + 1000000 + 1000000\<rparr>)"
proof -
  have nz: "lastTime s \<noteq> 0" "lastTime s + 1000000 \<noteq> 0"
  proof -
    show "lastTime s \<noteq> 0" using assms(7) by auto
    show "lastTime s + 1000000 \<noteq> 0"
    proof
      assume "lastTime s + 1000000 = 0"
      then have "even (lastTime s + 1000000)" by simp
      then show False using assms(7) by simp
    qed
  qed
  have b1: "beat (lastTime s + 1000000) 0 s
    = Inr (s\<lparr>tickPeriod := 1000000, uspb := 1000000, tick := False,
              timeBeforeLast := lastTime s, lastTime := lastTime s + 1000000\<rparr>, 1000000)"
    using assms nz
    by (simp add: beat_def beat_switch_def beat_calibrating_def mode_defs Let_def second_scale)
  have b2: "beat (lastTime s + 1000000 + 1000000) 0
      (s\<lparr>tickPeriod := 1000000, uspb := 1000000, tick := False,
              timeBeforeLast := lastTime s, lastTime := lastTime s + 1000000\<rparr>)
    = Inr (s\<lparr>tickPeriod := 1000000, tockPeriod := 1000000, uspb := 1000000,
             curSmoothing := curSmoothing s + 1,
             timeBeforeLast := lastTime s + 1000000,
             lastTime := lastTime s + 1000000 + 1000000\<rparr>, 1000000)"
    using assms nz sint_le_int_max [of "curSmoothing s + 1"]
    by (simp add: beat_def beat_switch_def beat_calibrating_def setRunMode_def mode_defs Let_def
        second_scale)
  show ?thesis by (simp only: beats.simps b1 b2 sum.case prod.case)
qed

lemma steady_run:
  assumes "runMode s = CALIBRATING" and "tick s" and "bias s = 0"
    and "tickAvg s = 1000000" and "tockAvg s = 1000000" and "tgtSmoothing s = 32767"
    and "odd (lastTime s)" and "curSmoothing s = - of_nat m" and "m < 65536"
  shows "beats (regular_beats (lastTime s + 1000000) 1000000 (2 * m + 1)) s = Inl DivByZero"
  using assms
proof (induction m arbitrary: s)
  case 0
  then have "lastTime s \<noteq> 0" by auto
  then show ?case using 0
    by (simp add: beat_def beat_switch_def beat_calibrating_def mode_defs)
next
  case (Suc m)
  have nz: "curSmoothing s \<noteq> 0"
    using Suc.prems(8,9) neg_of_nat_int_nonzero [of "Suc m"] by simp
  let ?s' = "s\<lparr>tickPeriod := 1000000, tockPeriod := 1000000, uspb := 1000000,
             curSmoothing := curSmoothing s + 1,
             timeBeforeLast := lastTime s + 1000000,
             lastTime := lastTime s + 1000000 + 1000000\<rparr>"
  have pair: "beats [(lastTime s + 1000000, 0), (lastTime s + 1000000 + 1000000, 0)] s = Inr ?s'"
    using Suc.prems(1-7) nz by (rule steady_pair)
  have ih: "beats (regular_beats (lastTime ?s' + 1000000) 1000000 (2 * m + 1)) ?s' = Inl DivByZero"
    using Suc.prems by (intro Suc.IH) simp_all
  have "regular_beats (lastTime s + 1000000) 1000000 (2 * Suc m + 1)
      = [(lastTime s + 1000000, 0), (lastTime s + 1000000 + 1000000, 0)]
        @ regular_beats (lastTime ?s' + 1000000) 1000000 (2 * m + 1)"
    by simp
  then show ?case using ih by (simp only: beats_append pair sum.case)
qed

theorem beat_calibrating_average_counterexample:
  "beats (regular_beats 1 1000000 131072)
     (setRunMode CALIBRATING (setTgtSmoothing 32767 (Bendulum 16 12))) = Inl DivByZero"
proof -
  let ?s0 = "setRunMode CALIBRATING (setTgtSmoothing 32767 (Bendulum 16 12))"
  let ?s3 = "?s0\<lparr>tickPeriod := 1000000, tockPeriod := 1000000, uspb := 1000000,
      tickAvg := 1000000, tockAvg := 1000000, curSmoothing := 2,
      timeBeforeLast := 1000001, lastTime := 2000001\<rparr>"
  have n: "(131072::nat) = Suc (Suc (Suc (2 * 65534 + 1)))" by simp
  have start: "beats [(1, 0), (1000001, 0), (2000001, 0)] ?s0 = Inr ?s3"
    by (simp add: beat_defs setTgtSmoothing_def Bendulum_def mode_defs arith_defs Let_def)
  have rest: "beats (regular_beats (lastTime ?s3 + 1000000) 1000000 (2 * 65534 + 1)) ?s3
      = Inl DivByZero"
    by (rule steady_run)
      (simp_all add: setRunMode_def setTgtSmoothing_def Bendulum_def mode_defs)
  have l: "lastTime ?s3 + 1000000 = 3000001" by simp
  have "regular_beats 1 1000000 (Suc (Suc (Suc (2 * 65534 + 1))))
      = [(1, 0), (1000001, 0), (2000001, 0)] @ regular_beats 3000001 1000000 (2 * 65534 + 1)"
    by (simp only: regular_beats.simps append_Cons append_Nil) simp
  then show ?thesis
    using rest unfolding l by (simp only: n beats_append start sum.case)
qed

text \<open>
  C3 (amended). A measured beat in CALIBRATING with the smoothing counter \<open>n\<close> at 0 divides
  by zero. With \<open>n \<noteq> 0\<close> it takes the corrected interval as its sample. It is a tick when
  the tick flag is set or \<open>tickAvg\<close> is still 0 (a calibration that starts on a tock is
  forced to tick first): then \<open>tickAvg += (sample - tickAvg) / n\<close>, and counter and mode
  stay. Otherwise it is a tock: \<open>tockAvg += (sample - tockAvg) / n\<close>, the counter grows by
  one, and the mode becomes CALFINISH when the new counter exceeds \<open>tgtSmoothing\<close>. The
  beat duration reported is \<open>tickAvg\<close> while \<open>tockAvg\<close> is 0 and \<open>(tickAvg + tockAvg) / 2\<close>
  otherwise. Entering CALIBRATING sets the counter to 1 and both averages to 0; for a
  target below 32767 and a counter from 1 to the target (or 1), the counter grows by
  exactly one with each tock and is again in that range while the mode is CALIBRATING.
  The divisions are C's, on 32-bit values; for a non-negative average and sample and
  \<open>n \<ge> 1\<close> the updated average is \<open>avg + (sample - avg) / n\<close> in the integers.
\<close>

theorem beat_calibrating_average:
  assumes "runMode s = CALIBRATING" and "lastTime s \<noteq> 0"
    and "sample = corrected (bias s) (topTime - lastTime s)"
    and "n = to_long (curSmoothing s)"
  shows "(curSmoothing s = 0 \<longrightarrow> beat topTime pastCoil s = Inl DivByZero)
   \<and> (curSmoothing s \<noteq> 0 \<longrightarrow>
       (\<exists>s'. beat topTime pastCoil s = Inr (s', uspb s')
        \<and> (if tick s \<or> tickAvg s = 0
            then tickPeriod s' = sample
               \<and> tickAvg s' = tickAvg s + c_div (sample - tickAvg s) n
               \<and> tockAvg s' = tockAvg s
               \<and> curSmoothing s' = curSmoothing s
               \<and> runMode s' = CALIBRATING
               \<and> \<not> tick s'
            else tockPeriod s' = sample
               \<and> tockAvg s' = tockAvg s + c_div (sample - tockAvg s) n
               \<and> tickAvg s' = tickAvg s
               \<and> curSmoothing s' = curSmoothing s + 1
               \<and> runMode s' =
                   (if tgtSmoothing s <s curSmoothing s + 1 then CALFINISH else CALIBRATING)
               \<and> tick s')
        \<and> uspb s' = (if tockAvg s' = 0 then tickAvg s' else c_div (tickAvg s' + tockAvg s') 2)
        \<and> tgtSmoothing s' = tgtSmoothing s
        \<and> (1 \<le> sint (curSmoothing s) \<and> sint (curSmoothing s) \<le> max 1 (sint (tgtSmoothing s))
             \<and> sint (tgtSmoothing s) < 32767 \<longrightarrow>
            sint (curSmoothing s')
              = sint (curSmoothing s) + (if tick s \<or> tickAvg s = 0 then 0 else 1)
            \<and> (runMode s' = CALIBRATING \<longrightarrow>
                 1 \<le> sint (curSmoothing s')
               \<and> sint (curSmoothing s') \<le> max 1 (sint (tgtSmoothing s'))))))
   \<and> curSmoothing (setRunMode CALIBRATING s) = 1
   \<and> tickAvg (setRunMode CALIBRATING s) = 0
   \<and> tockAvg (setRunMode CALIBRATING s) = 0
   \<and> (0 \<le> sint avg \<and> 0 \<le> sint sample \<and> 1 \<le> sint (curSmoothing s) \<longrightarrow>
        sint (avg + c_div (sample - avg) n)
          = sint avg + (sint sample - sint avg) sdiv sint (curSmoothing s))"
    (is "?zero \<and> ?step \<and> ?i1 \<and> ?i2 \<and> ?i3 \<and> ?reading")
proof (intro conjI)
  show ?zero using assms(1,2)
    by (simp add: beat_def beat_switch_def beat_calibrating_def mode_defs)
  show ?step
  proof
    assume nz: "curSmoothing s \<noteq> 0"
    have suc: "sint (curSmoothing s + 1) = sint (curSmoothing s) + 1"
      if "sint (curSmoothing s) \<le> max 1 (sint (tgtSmoothing s))" "sint (tgtSmoothing s) < 32767"
      using that by (intro sint_succ_int) simp
    show "\<exists>s'. beat topTime pastCoil s = Inr (s', uspb s')
        \<and> (if tick s \<or> tickAvg s = 0
            then tickPeriod s' = sample
               \<and> tickAvg s' = tickAvg s + c_div (sample - tickAvg s) n
               \<and> tockAvg s' = tockAvg s
               \<and> curSmoothing s' = curSmoothing s
               \<and> runMode s' = CALIBRATING
               \<and> \<not> tick s'
            else tockPeriod s' = sample
               \<and> tockAvg s' = tockAvg s + c_div (sample - tockAvg s) n
               \<and> tickAvg s' = tickAvg s
               \<and> curSmoothing s' = curSmoothing s + 1
               \<and> runMode s' =
                   (if tgtSmoothing s <s curSmoothing s + 1 then CALFINISH else CALIBRATING)
               \<and> tick s')
        \<and> uspb s' = (if tockAvg s' = 0 then tickAvg s' else c_div (tickAvg s' + tockAvg s') 2)
        \<and> tgtSmoothing s' = tgtSmoothing s
        \<and> (1 \<le> sint (curSmoothing s) \<and> sint (curSmoothing s) \<le> max 1 (sint (tgtSmoothing s))
             \<and> sint (tgtSmoothing s) < 32767 \<longrightarrow>
            sint (curSmoothing s')
              = sint (curSmoothing s) + (if tick s \<or> tickAvg s = 0 then 0 else 1)
            \<and> (runMode s' = CALIBRATING \<longrightarrow>
                 1 \<le> sint (curSmoothing s')
               \<and> sint (curSmoothing s') \<le> max 1 (sint (tgtSmoothing s'))))"
    proof (cases "tick s \<or> tickAvg s = 0")
      case True
      then show ?thesis using assms nz
        by (simp add: beat_defs mode_defs Let_def) (cases "tick s"; simp)
    next
      case False
      then show ?thesis using assms nz suc
        by (simp add: beat_defs mode_defs Let_def word_sless_alt) (auto simp add: max_def)
    qed
  qed
  show ?i1 ?i2 ?i3 by (simp_all add: setRunMode_def mode_defs)
  show ?reading
    using running_average_sint [of avg sample n] sint_to_long [of "curSmoothing s"]
    by (simp add: assms(4))
qed

theorem beat_calibrating_average_witness:
  "(\<exists>s'. beat 1002000 0
        ((setBias 10 (setRunMode CALIBRATING (Bendulum 16 12)))
           \<lparr>lastTime := 1000, curSmoothing := 3, tickAvg := 1000000, tockAvg := 999000\<rparr>)
        = Inr (s', 999668)
      \<and> tickPeriod s' = 1001012 \<and> tickAvg s' = 1000337 \<and> tockAvg s' = 999000
      \<and> curSmoothing s' = 3 \<and> runMode s' = CALIBRATING \<and> uspb s' = 999668)
   \<and> (\<exists>s'. beat 1002000 0
        ((setBias 10 (setRunMode CALIBRATING (Bendulum 16 12)))
           \<lparr>lastTime := 1000, curSmoothing := 3, tickAvg := 1000000, tockAvg := 999000,
            tick := False\<rparr>)
        = Inr (s', 999835)
      \<and> tockPeriod s' = 1001012 \<and> tockAvg s' = 999670 \<and> tickAvg s' = 1000000
      \<and> curSmoothing s' = 4 \<and> runMode s' = CALIBRATING \<and> uspb s' = 999835)
   \<and> (\<exists>s'. beat 1002000 0
        ((setTgtSmoothing 3 (setRunMode CALIBRATING (Bendulum 16 12)))
           \<lparr>lastTime := 1000, curSmoothing := 3, tickAvg := 1000000, tockAvg := 999000,
            tick := False\<rparr>)
        = Inr (s', 999833)
      \<and> tockAvg s' = 999666 \<and> curSmoothing s' = 4 \<and> runMode s' = CALFINISH)
   \<and> beat 1002000 0
        ((setRunMode CALIBRATING (Bendulum 16 12))\<lparr>lastTime := 1000, curSmoothing := 0\<rparr>)
        = Inl DivByZero"
  using beat_calibrating_average
    [of "(setBias 10 (setRunMode CALIBRATING (Bendulum 16 12)))
           \<lparr>lastTime := 1000, curSmoothing := 3, tickAvg := 1000000, tockAvg := 999000\<rparr>"
        _ 1002000 _ 0 0, OF _ _ refl refl]
    beat_calibrating_average
    [of "(setBias 10 (setRunMode CALIBRATING (Bendulum 16 12)))
           \<lparr>lastTime := 1000, curSmoothing := 3, tickAvg := 1000000, tockAvg := 999000,
            tick := False\<rparr>"
        _ 1002000 _ 0 0, OF _ _ refl refl]
    beat_calibrating_average
    [of "(setTgtSmoothing 3 (setRunMode CALIBRATING (Bendulum 16 12)))
           \<lparr>lastTime := 1000, curSmoothing := 3, tickAvg := 1000000, tockAvg := 999000,
            tick := False\<rparr>"
        _ 1002000 _ 0 0, OF _ _ refl refl]
    beat_calibrating_average
    [of "(setRunMode CALIBRATING (Bendulum 16 12))\<lparr>lastTime := 1000, curSmoothing := 0\<rparr>"
        _ 1002000 _ 0 0, OF _ _ refl refl]
  by (auto simp add: setBias_def setTgtSmoothing_def setRunMode_def Bendulum_def mode_defs
      arith_defs)

section \<open>incrBeatDuration\<close>

subsection \<open>When the loop ends\<close>

lemma sint_diff_long:
  assumes "0 \<le> sint (b :: c_long)" "sint b \<le> sint a"
  shows "sint (a - b) = sint a - sint b"
proof -
  have "sint a < 2 ^ 31" "- (2 ^ 31) \<le> sint a" using sint_lt [of a] sint_ge [of a] by simp_all
  then show ?thesis using assms
    by (simp add: sint_word_ariths signed_take_bit_int_eq_self)
qed

text \<open>With a step \<open>noOflow\<close> of at least 1 the loop ends, whatever the increment.\<close>

lemma incr_loop_terminates:
  assumes "1 \<le> sint n"
  shows "\<exists>i v. incr_loop n incr u = Some (i, v)"
proof (induction "nat (sint incr - sint n)" arbitrary: incr u rule: less_induct)
  case less
  show ?case
  proof (cases "n <s incr")
    case False
    then show ?thesis by (subst incr_loop.simps) simp
  next
    case True
    then have lt: "sint n < sint incr" by (simp add: word_sless_alt)
    have d: "sint (incr - n) = sint incr - sint n"
      using assms lt by (intro sint_diff_long) simp_all
    have "nat (sint (incr - n) - sint n) < nat (sint incr - sint n)"
      using assms lt d by simp
    from less [OF this] obtain i v where
      "incr_loop n (incr - n) (u + c_div (n * u + 432000) 864000) = Some (i, v)"
      by blast
    then show ?thesis using True by (subst incr_loop.simps) simp
  qed
qed

text \<open>With a step of 0 (a beat duration above 2000000000) and a positive increment it
  never ends.\<close>

lemma incr_loop_Some_zero:
  assumes "incr_loop n incr u = Some y"
  shows "n = 0 \<longrightarrow> \<not> 0 <s incr"
  by (rule incr_loop.raw_induct [where P = "\<lambda>n incr u y. n = 0 \<longrightarrow> \<not> 0 <s incr", OF _ assms])
    (auto split: if_splits)

lemma incr_loop_diverges:
  "0 <s incr \<Longrightarrow> incr_loop 0 incr u = None"
  using incr_loop_Some_zero [of 0 incr u] by (cases "incr_loop 0 incr u") auto

lemma c_div_2000000000:
  assumes "0 < sint (u :: c_long)" "sint u \<le> 2000000000"
  shows "1 \<le> sint (c_div 2000000000 u)"
proof -
  let ?q = "2000000000 div sint u"
  have q: "1 \<le> ?q" "?q \<le> 2000000000"
  proof -
    show "1 \<le> ?q" using assms pos_imp_zdiv_pos_iff [of "sint u" 2000000000] by linarith
    show "?q \<le> 2000000000" using assms zdiv_mono2 [of 2000000000 1 "sint u"] by simp
  qed
  have "c_div 2000000000 u = word_of_int ?q"
    using assms by (simp add: c_div_def signed_divide_int_def sgn_if)
  then show ?thesis using q by (simp add: sint_long_of_int)
qed

text \<open>So \<open>incrBeatDuration\<close> returns for every beat duration from 1 to 2000000000, and
  what it returns is the new beat duration, to which both averages are set; no other
  field changes.\<close>

lemma incrBeatDuration_returns:
  assumes "0 < sint (uspb s)" "sint (uspb s) \<le> 2000000000"
  shows "\<exists>s' r. incrBeatDuration incr s = Some (Inr (s', r))"
proof -
  have nz: "uspb s \<noteq> 0" using assms(1) by auto
  obtain i v where "incr_loop (c_div 2000000000 (uspb s)) incr (uspb s) = Some (i, v)"
    using incr_loop_terminates [OF c_div_2000000000 [OF assms]] by blast
  then show ?thesis using nz by (simp add: incrBeatDuration_def Let_def)
qed

lemma incrBeatDuration_never_returns:
  "incrBeatDuration 1 (setBeatDuration 2000000001 (Bendulum 16 12)) = None"
  using incr_loop_diverges [of 1 2000000001]
  by (simp add: incrBeatDuration_def setBeatDuration_def Bendulum_def arith_defs Let_def)

lemma incrBeatDuration_result:
  assumes "incrBeatDuration incr s = Some (Inr (s', r))"
  shows "s' = s\<lparr>tockAvg := r, tickAvg := r, uspb := r\<rparr>"
  using assms
  by (auto simp add: incrBeatDuration_def Let_def split: if_splits option.splits)

subsection \<open>The division by the beat duration\<close>

text \<open>
  C10. \<open>incrBeatDuration\<close> divides 2000000000 by the beat duration without a check: the
  division fails exactly when the beat duration is 0. That is the case for a new object,
  also after its first call of \<open>beat\<close> (which measures nothing), for every increment; it
  is not the case once \<open>setBeatDuration\<close> has stored a non-zero duration.
\<close>

theorem incrBeatDuration_division:
  "(incrBeatDuration incr s = Some (Inl DivByZero) \<longleftrightarrow> uspb s = 0)
   \<and> incrBeatDuration incr (Bendulum sPin kPin) = Some (Inl DivByZero)
   \<and> (beat topTime pastCoil (Bendulum sPin kPin) = Inr (s1, r) \<longrightarrow>
        incrBeatDuration incr s1 = Some (Inl DivByZero))
   \<and> (beatDur \<noteq> 0 \<longrightarrow>
        incrBeatDuration incr (setBeatDuration beatDur s) \<noteq> Some (Inl DivByZero))"
proof -
  have iff: "incrBeatDuration incr s = Some (Inl DivByZero) \<longleftrightarrow> uspb s = 0" for incr s
    by (auto simp add: incrBeatDuration_def Let_def split: option.splits)
  have "uspb s1 = 0" if "beat topTime pastCoil (Bendulum sPin kPin) = Inr (s1, r)"
    using that by (auto simp add: beat_def Bendulum_def)
  then show ?thesis
    by (simp add: iff) (simp add: Bendulum_def setBeatDuration_def)
qed

theorem incrBeatDuration_division_witness:
  "beat 1000 0 (Bendulum 16 12) = Inr ((Bendulum 16 12)\<lparr>lastTime := 1000\<rparr>, 0)
   \<and> incrBeatDuration 5 ((Bendulum 16 12)\<lparr>lastTime := 1000\<rparr>) = Some (Inl DivByZero)
   \<and> (1000000 :: c_long) \<noteq> 0
   \<and> incrBeatDuration 5 (setBeatDuration 1000000 (Bendulum 16 12)) \<noteq> Some (Inl DivByZero)"
  using incrBeatDuration_division [of 5 "Bendulum 16 12" 16 12 1000 0
      "(Bendulum 16 12)\<lparr>lastTime := 1000\<rparr>" 0 1000000]
  by (simp add: beat_def Bendulum_def)

subsection \<open>Products that do not fit 32 bits\<close>

text \<open>
  C9 says that \<open>incrBeatDuration\<close> applies every increment in steps of at most
  \<open>2000000000 / uspb\<close>, so that no product overflows. With a beat duration of 1000000 the
  step is 2000. The loop compares \<open>incr > noOflow\<close>, so the increment \<open>- 3000\<close> is
  applied whole: its product with the beat duration is below \<open>- 2 ^ 31\<close>, and the call
  returns 1001499 where the formula gives 996529. For the increment 64000 the loop runs
  31 times with the step computed before it; the beat duration has then grown to
  1074308, the last product is above \<open>2 ^ 31 - 1\<close>, and the call returns 1071825.
\<close>

theorem incrBeatDuration_overflow:
  "c_div 2000000000 (uspb (setBeatDuration 1000000 (Bendulum 16 12))) = 2000
   \<and> incr_loop 2000 (- 3000) 1000000 = Some (- 3000, 1000000)
   \<and> (- 3000 * 1000000 + 432000 :: int) < - (2 ^ 31)
   \<and> map_option (map_sum id snd)
        (incrBeatDuration (- 3000) (setBeatDuration 1000000 (Bendulum 16 12)))
       = Some (Inr 1001499)
   \<and> (1000000 + (- 3000 * 1000000 + 432000) sdiv 864000 :: int) = 996529
   \<and> incr_loop 2000 64000 1000000 = Some (2000, 1074308)
   \<and> (2 ^ 31 :: int) \<le> 2000 * 1074308 + 432000
   \<and> map_option (map_sum id snd)
        (incrBeatDuration 64000 (setBeatDuration 1000000 (Bendulum 16 12)))
       = Some (Inr 1071825)"
  by (simp add: incrBeatDuration_def incr_loop.simps setBeatDuration_def Bendulum_def
      arith_defs Let_def)


end
